theory Spec2Isabelle
  imports Main
begin

section \<open>The versioned text buffer of \<^verbatim>\<open>text_history.py\<close>\<close>

text \<open>
  Python's \<^verbatim>\<open>int\<close> is unbounded and is modelled by \<open>int\<close>; a Python \<^verbatim>\<open>str\<close> is
  modelled by \<open>string\<close>, one \<open>char\<close> standing for one element of the string (nothing
  below looks inside a character). Every exception the module raises itself is a
  \<^verbatim>\<open>ValueError\<close> carrying a message; the two implicit failures of the merge helpers
  (indexing an empty list, reading an attribute the object does not have) are kept as
  errors of their own.
\<close>

datatype error = ValueError string | IndexError | AttributeError

subsection \<open>Slices\<close>

text \<open>
  \<^verbatim>\<open>text[:i]\<close> and \<^verbatim>\<open>text[i:]\<close> for an arbitrary integer \<open>i\<close>: a negative index counts
  from the end, and the result is clamped to the bounds of the string.
\<close>

definition slice_index :: "string \<Rightarrow> int \<Rightarrow> nat" where
  "slice_index t i = (if i < 0 then nat (max 0 (int (length t) + i)) else nat i)"

definition slice_to :: "string \<Rightarrow> int \<Rightarrow> string" where
  "slice_to t i = take (slice_index t i) t"

definition slice_from :: "string \<Rightarrow> int \<Rightarrow> string" where
  "slice_from t i = drop (slice_index t i) t"

definition len :: "string \<Rightarrow> int" where
  "len t = int (length t)"

subsection \<open>Actions\<close>

text \<open>
  The three subclasses of \<^verbatim>\<open>Action\<close>. The constructor arguments are in the order of
  the Python constructors: \<^verbatim>\<open>InsertAction(pos, text, from_version, to_version)\<close>,
  \<^verbatim>\<open>ReplaceAction(pos, text, from_version, to_version)\<close>,
  \<^verbatim>\<open>DeleteAction(pos, length, from_version, to_version)\<close>. The attributes every action
  has are total selectors; \<^verbatim>\<open>text\<close> and \<^verbatim>\<open>length\<close> exist on some classes only and
  reading them elsewhere raises \<^verbatim>\<open>AttributeError\<close>.
\<close>

datatype Action =
    InsertAction int string int int
  | ReplaceAction int string int int
  | DeleteAction int int int int

fun pos :: "Action \<Rightarrow> int" where
  "pos (InsertAction p c f t) = p"
| "pos (ReplaceAction p c f t) = p"
| "pos (DeleteAction p l f t) = p"

fun from_version :: "Action \<Rightarrow> int" where
  "from_version (InsertAction p c f t) = f"
| "from_version (ReplaceAction p c f t) = f"
| "from_version (DeleteAction p l f t) = f"

fun to_version :: "Action \<Rightarrow> int" where
  "to_version (InsertAction p c f t) = t"
| "to_version (ReplaceAction p c f t) = t"
| "to_version (DeleteAction p l f t) = t"

fun text_attr :: "Action \<Rightarrow> error + string" where
  "text_attr (InsertAction p c f t) = Inr c"
| "text_attr (ReplaceAction p c f t) = Inr c"
| "text_attr (DeleteAction p l f t) = Inl AttributeError"

fun length_attr :: "Action \<Rightarrow> error + int" where
  "length_attr (InsertAction p c f t) = Inl AttributeError"
| "length_attr (ReplaceAction p c f t) = Inl AttributeError"
| "length_attr (DeleteAction p l f t) = Inr l"

text \<open>\<^verbatim>\<open>isinstance(x, InsertAction)\<close> and \<^verbatim>\<open>isinstance(x, DeleteAction)\<close>.\<close>

fun is_InsertAction :: "Action \<Rightarrow> bool" where
  "is_InsertAction (InsertAction p c f t) = True"
| "is_InsertAction _ = False"

fun is_DeleteAction :: "Action \<Rightarrow> bool" where
  "is_DeleteAction (DeleteAction p l f t) = True"
| "is_DeleteAction _ = False"

text \<open>
  \<^verbatim>\<open>isinstance(x, type(y))\<close>: the three classes are siblings, so \<open>x\<close> is an instance of
  the class of \<open>y\<close> exactly when both belong to the same class.
\<close>

fun isinstance_type :: "Action \<Rightarrow> Action \<Rightarrow> bool" where
  "isinstance_type (InsertAction p c f t) (InsertAction p' c' f' t') = True"
| "isinstance_type (ReplaceAction p c f t) (ReplaceAction p' c' f' t') = True"
| "isinstance_type (DeleteAction p l f t) (DeleteAction p' l' f' t') = True"
| "isinstance_type _ _ = False"

text \<open>The method \<^verbatim>\<open>apply\<close> of the three classes.\<close>

fun apply_to :: "Action \<Rightarrow> string \<Rightarrow> error + string" where
  "apply_to (InsertAction p c f t) text =
     (if p > len text \<or> p < 0 then Inl (ValueError ''incorrect pos in InsertAction.'')
      else Inr (slice_to text p @ c @ slice_from text p))"
| "apply_to (ReplaceAction p c f t) text =
     (if p > len text \<or> p < 0 then Inl (ValueError ''incorrect pos in ReplaceAction'')
      else let end_idx = p + len c in
        if end_idx \<ge> len text then Inr (slice_to text p @ c)
        else Inr (slice_to text p @ c @ slice_from text end_idx))"
| "apply_to (DeleteAction p l f t) text =
     (if p + l > len text \<or> p < 0 then Inl (ValueError ''incorrect pos in DeleteAction.'')
      else Inr (slice_to text p @ slice_from text (p + l)))"


text \<open>
  The method \<^verbatim>\<open>__str__\<close>. \<^verbatim>\<open>str.format\<close> renders an integer in decimal and a string
  as itself. The format string of each class is written over two source lines joined by
  a backslash inside the literal, so the indentation of the second line (16 blanks)
  belongs to the string, after the blank that precedes the backslash.
\<close>

fun str_nat :: "nat \<Rightarrow> string" where
  "str_nat n =
     (if n < 10 then [''0123456789'' ! n]
      else str_nat (n div 10) @ [''0123456789'' ! (n mod 10)])"

declare str_nat.simps [simp del]

definition str_int :: "int \<Rightarrow> string" where
  "str_int i = (if i < 0 then ''-'' @ str_nat (nat (- i)) else str_nat (nat i))"

fun str_action :: "Action \<Rightarrow> string" where
  "str_action (InsertAction p c f t) =
     ''insert('' @ c @ '', pos='' @ str_int p @ '',                 ver1='' @ str_int f
       @ '', ver2='' @ str_int t @ '')''"
| "str_action (ReplaceAction p c f t) =
     ''replace('' @ c @ '', pos='' @ str_int p @ '',                 ver1='' @ str_int f
       @ '', ver2='' @ str_int t @ '')''"
| "str_action (DeleteAction p l f t) =
     ''delete(pos='' @ str_int p @ '', length='' @ str_int l @ '',                 ver1=''
       @ str_int f @ '', ver2='' @ str_int t @ '')''"

subsection \<open>The history\<close>

text \<open>
  The object state of \<^verbatim>\<open>TextHistory\<close>: the fields \<^verbatim>\<open>_text\<close>, \<^verbatim>\<open>_version\<close> and
  \<^verbatim>\<open>__actions_list\<close>. A method takes the state and returns the state it leaves behind
  together with its result or the exception it raised.
\<close>

record TextHistory =
  text_str :: string
  version :: int
  actions_list :: "Action list"

definition init :: TextHistory where
  "init = \<lparr>text_str = [], version = 0, actions_list = []\<rparr>"

text \<open>
  \<^verbatim>\<open>TextHistory.action\<close>. Both exceptions are raised before the first assignment, so
  the state is the one the call started with.
\<close>

definition action :: "TextHistory \<Rightarrow> Action \<Rightarrow> TextHistory \<times> (error + int)" where
  "action self a =
     (if version self \<noteq> from_version a then (self, Inl (ValueError ''incopatible versions.''))
      else case apply_to a (text_str self) of
          Inl e \<Rightarrow> (self, Inl e)
        | Inr text' \<Rightarrow>
            let self1 = self\<lparr>text_str := text'\<rparr>;
                self2 = self1\<lparr>version := to_version a\<rparr>;
                self3 = self2\<lparr>actions_list := actions_list self2 @ [a]\<rparr>
            in (self3, Inr (version self3)))"

text \<open>
  \<^verbatim>\<open>insert\<close>, \<^verbatim>\<open>replace\<close> and \<^verbatim>\<open>delete\<close>. The optional position is \<open>None\<close> when the
  caller leaves it out. Each returns \<^verbatim>\<open>self._version\<close> read after \<^verbatim>\<open>action\<close> returned.
\<close>

definition insert_txt :: "TextHistory \<Rightarrow> string \<Rightarrow> int option \<Rightarrow> TextHistory \<times> (error + int)" where
  "insert_txt self txt pos_arg =
     (let p = (case pos_arg of None \<Rightarrow> len (text_str self) | Some p \<Rightarrow> p);
          act = InsertAction p txt (version self) (version self + 1)
      in case action self act of
          (self', Inl e) \<Rightarrow> (self', Inl e)
        | (self', Inr _) \<Rightarrow> (self', Inr (version self')))"

definition replace_txt :: "TextHistory \<Rightarrow> string \<Rightarrow> int option \<Rightarrow> TextHistory \<times> (error + int)" where
  "replace_txt self txt pos_arg =
     (let p = (case pos_arg of None \<Rightarrow> len (text_str self) | Some p \<Rightarrow> p);
          act = ReplaceAction p txt (version self) (version self + 1)
      in case action self act of
          (self', Inl e) \<Rightarrow> (self', Inl e)
        | (self', Inr _) \<Rightarrow> (self', Inr (version self')))"

definition delete_txt :: "TextHistory \<Rightarrow> int \<Rightarrow> int \<Rightarrow> TextHistory \<times> (error + int)" where
  "delete_txt self p l =
     (let act = DeleteAction p l (version self) (version self + 1)
      in case action self act of
          (self', Inl e) \<Rightarrow> (self', Inl e)
        | (self', Inr _) \<Rightarrow> (self', Inr (version self')))"

subsection \<open>Compaction\<close>

text \<open>\<^verbatim>\<open>optimize_act_list[-1]\<close>, which raises \<^verbatim>\<open>IndexError\<close> on the empty list.\<close>

definition last_item :: "Action list \<Rightarrow> error + Action" where
  "last_item xs = (if xs = [] then Inl IndexError else Inr (last xs))"

text \<open>
  \<^verbatim>\<open>try_merge_delete\<close> and \<^verbatim>\<open>try_merge_insert\<close> change the list they are given in place;
  the model returns its new contents. \<^verbatim>\<open>pop()\<close> removes the last element and
  \<^verbatim>\<open>append\<close> adds one at the end.
\<close>

definition try_merge_delete :: "Action \<Rightarrow> Action list \<Rightarrow> error + Action list" where
  "try_merge_delete a optimize_act_list =
     (case last_item optimize_act_list of
        Inl e \<Rightarrow> Inl e
      | Inr pre_action \<Rightarrow>
          if pos pre_action = pos a then
            (case length_attr pre_action of
               Inl e \<Rightarrow> Inl e
             | Inr pre_length \<Rightarrow>
                (case length_attr a of
                   Inl e \<Rightarrow> Inl e
                 | Inr a_length \<Rightarrow>
                     Inr (butlast optimize_act_list
                          @ [DeleteAction (pos a) (pre_length + a_length)
                               (from_version pre_action) (to_version a)])))
          else Inr (optimize_act_list @ [a]))"

definition try_merge_insert :: "Action \<Rightarrow> Action list \<Rightarrow> error + Action list" where
  "try_merge_insert a optimize_act_list =
     (case last_item optimize_act_list of
        Inl e \<Rightarrow> Inl e
      | Inr pre_action \<Rightarrow>
          (case text_attr pre_action of
             Inl e \<Rightarrow> Inl e
           | Inr pre_text \<Rightarrow>
               if pos a = pos pre_action + len pre_text then
                 (case text_attr a of
                    Inl e \<Rightarrow> Inl e
                  | Inr a_text \<Rightarrow>
                      Inr (butlast optimize_act_list
                           @ [InsertAction (pos pre_action) (pre_text @ a_text)
                                (from_version pre_action) (to_version a)]))
               else Inr (optimize_act_list @ [a])))"

text \<open>The body of the loop of \<^verbatim>\<open>optimize\<close>, the loop, and \<^verbatim>\<open>optimize\<close> itself.\<close>

definition optimize_body :: "Action list \<Rightarrow> Action \<Rightarrow> error + Action list" where
  "optimize_body optimize_act_list a =
     (if optimize_act_list \<noteq> [] then
        (if isinstance_type (last optimize_act_list) a then
           (if is_InsertAction a then try_merge_insert a optimize_act_list
            else if is_DeleteAction a then try_merge_delete a optimize_act_list
            else Inr (optimize_act_list @ [a]))
         else Inr (optimize_act_list @ [a]))
      else Inr (optimize_act_list @ [a]))"

fun optimize_loop :: "Action list \<Rightarrow> Action list \<Rightarrow> error + Action list" where
  "optimize_loop optimize_act_list [] = Inr optimize_act_list"
| "optimize_loop optimize_act_list (a # act_list) =
     (case optimize_body optimize_act_list a of
        Inl e \<Rightarrow> Inl e
      | Inr optimize_act_list' \<Rightarrow> optimize_loop optimize_act_list' act_list)"

definition optimize :: "Action list \<Rightarrow> error + Action list" where
  "optimize act_list = optimize_loop [] act_list"

text \<open>
  \<^verbatim>\<open>get_actions\<close>. The bounds are \<open>None\<close> when the caller leaves them out. The method
  assigns to no field and builds \<^verbatim>\<open>act_list\<close> afresh, \<^verbatim>\<open>optimize\<close> works on a list of its
  own, so the state returned is the state received.
\<close>

definition get_actions ::
  "TextHistory \<Rightarrow> int option \<Rightarrow> int option \<Rightarrow> TextHistory \<times> (error + Action list)" where
  "get_actions self from_arg to_arg =
     (let from_v = (case from_arg of None \<Rightarrow> 0 | Some v \<Rightarrow> v);
          to_v = (case to_arg of None \<Rightarrow> version self | Some v \<Rightarrow> v)
      in if from_v > version self \<or> to_v > version self
           then (self, Inl (ValueError ''incopatible versions.''))
         else if from_v > to_v then (self, Inl (ValueError ''incopatible versions.''))
         else if from_v < 0 \<or> to_v < 0 then (self, Inl (ValueError ''incopatible versions.''))
         else (self, optimize (filter (\<lambda>a. from_v \<le> from_version a \<and> from_version a < to_v)
                                 (actions_list self))))"

subsection \<open>Callers\<close>

text \<open>
  A call of one of the three mutating methods, and a caller that makes a list of such
  calls one after the other on the same object, going on after a call that raised;
  it returns the final state and the number of calls that succeeded.
\<close>

datatype call = Insert string "int option" | Replace string "int option" | Delete int int

fun perform :: "TextHistory \<Rightarrow> call \<Rightarrow> TextHistory \<times> (error + int)" where
  "perform self (Insert txt pos_arg) = insert_txt self txt pos_arg"
| "perform self (Replace txt pos_arg) = replace_txt self txt pos_arg"
| "perform self (Delete p l) = delete_txt self p l"

fun run :: "TextHistory \<Rightarrow> call list \<Rightarrow> TextHistory \<times> nat" where
  "run self [] = (self, 0)"
| "run self (c # cs) =
     (case perform self c of
        (self', Inl e) \<Rightarrow> run self' cs
      | (self', Inr v) \<Rightarrow> (case run self' cs of (self'', n) \<Rightarrow> (self'', Suc n)))"

text \<open>
  Replaying a list of actions on a text: each action is applied to the result of the one
  before, and the first failure is the result.
\<close>

fun replay :: "Action list \<Rightarrow> string \<Rightarrow> error + string" where
  "replay [] text = Inr text"
| "replay (a # as) text =
     (case apply_to a text of Inl e \<Rightarrow> Inl e | Inr text' \<Rightarrow> replay as text')"

text \<open>
  Actions whose delete length is not negative, as the data model of the specification
  has them.
\<close>

fun nonneg_length :: "Action \<Rightarrow> bool" where
  "nonneg_length (DeleteAction p l f t) = (0 \<le> l)"
| "nonneg_length _ = True"

text \<open>
  The compaction pass as the specification words it: walk the list from left to right
  keeping an output list; two inserts merge when the candidate starts where the last
  output insert ends, two deletes merge when they have the same position, anything else
  is appended unchanged.
\<close>

definition compact_step :: "Action list \<Rightarrow> Action \<Rightarrow> Action list" where
  "compact_step out a =
     (if out = [] then [a]
      else case (last out, a) of
        (InsertAction p c f t, InsertAction p' c' f' t') \<Rightarrow>
          if p' = p + int (length c)
          then butlast out @ [InsertAction p (c @ c') f t']
          else out @ [a]
      | (DeleteAction p l f t, DeleteAction p' l' f' t') \<Rightarrow>
          if p' = p
          then butlast out @ [DeleteAction p (l + l') f t']
          else out @ [a]
      | _ \<Rightarrow> out @ [a])"

definition compaction :: "Action list \<Rightarrow> Action list" where
  "compaction act_list = foldl compact_step [] act_list"

section \<open>Properties\<close>

subsection \<open>The loop of \<^verbatim>\<open>optimize\<close> computes the compaction pass\<close>

lemma last_item_simps [simp]: "last_item [] = Inl IndexError" "last_item (xs @ [x]) = Inr x"
  by (simp_all add: last_item_def)

lemma optimize_body_eq: "optimize_body acc a = Inr (compact_step acc a)"
proof (cases acc rule: rev_cases)
  case Nil
  then show ?thesis by (simp add: optimize_body_def compact_step_def)
next
  case (snoc ys y)
  then show ?thesis
    by (cases y; cases a)
       (simp_all add: optimize_body_def compact_step_def try_merge_insert_def
          try_merge_delete_def len_def)
qed

lemma optimize_loop_eq: "optimize_loop acc xs = Inr (foldl compact_step acc xs)"
  by (induction xs arbitrary: acc) (simp_all add: optimize_body_eq)

lemma optimize_eq: "optimize xs = Inr (compaction xs)"
  by (simp add: optimize_def compaction_def optimize_loop_eq)

subsection \<open>Replaying merged actions\<close>

lemma replay_append:
  "replay (xs @ ys) s = (case replay xs s of Inl e \<Rightarrow> Inl e | Inr s' \<Rightarrow> replay ys s')"
  by (induction xs arbitrary: s) (simp_all split: sum.splits)

lemma insert_merge_replay:
  "replay [InsertAction p c f t, InsertAction (p + int (length c)) c' f' t'] s
     = replay [InsertAction p (c @ c') f1 t1] s"
  by (auto simp: len_def slice_to_def slice_from_def slice_index_def nat_add_distrib)

lemma delete_merge_replay:
  assumes "0 \<le> l" "0 \<le> l'"
  shows "replay [DeleteAction p l f t, DeleteAction p l' f' t'] s
     = replay [DeleteAction p (l + l') f1 t1] s"
  using assms
  by (auto simp: len_def slice_to_def slice_from_def slice_index_def nat_add_distrib min_def
      ac_simps)

lemma replay_snoc2:
  "replay (ys @ [y, a]) s = (case replay ys s of Inl e \<Rightarrow> Inl e | Inr s' \<Rightarrow> replay [y, a] s')"
  using replay_append[of ys "[y, a]" s] by simp

lemma replay_snoc1:
  "replay (ys @ [m]) s = (case replay ys s of Inl e \<Rightarrow> Inl e | Inr s' \<Rightarrow> replay [m] s')"
  using replay_append[of ys "[m]" s] by simp

lemma compact_step_replay:
  assumes "\<forall>x \<in> set out. nonneg_length x" "nonneg_length a"
  shows "replay (compact_step out a) s = replay (out @ [a]) s
         \<and> (\<forall>x \<in> set (compact_step out a). nonneg_length x)"
proof (cases out rule: rev_cases)
  case Nil
  then show ?thesis using assms by (simp add: compact_step_def)
next
  case (snoc ys y)
  show ?thesis
  proof (cases "compact_step out a = out @ [a]")
    case True
    then show ?thesis using assms by simp
  next
    case False
    then consider
      (ins) p c f t c' f' t' where "y = InsertAction p c f t"
          "a = InsertAction (p + int (length c)) c' f' t'"
          "compact_step out a = ys @ [InsertAction p (c @ c') f t']"
      | (del) p l f t l' f' t' where "y = DeleteAction p l f t"
          "a = DeleteAction p l' f' t'"
          "compact_step out a = ys @ [DeleteAction p (l + l') f t']"
      using snoc by (cases y; cases a) (auto simp: compact_step_def split: if_splits)
    then show ?thesis
    proof cases
      case ins
      have "replay (ys @ [y, a]) s = replay (ys @ [InsertAction p (c @ c') f t']) s"
        unfolding replay_snoc2 replay_snoc1 ins(1,2)
          insert_merge_replay[of p c f t c' f' t' _ f t'] ..
      then show ?thesis using ins snoc assms by simp
    next
      case del
      have nn: "0 \<le> l" "0 \<le> l'" using assms snoc del by auto
      have "replay (ys @ [y, a]) s = replay (ys @ [DeleteAction p (l + l') f t']) s"
        unfolding replay_snoc2 replay_snoc1 del(1,2)
          delete_merge_replay[OF nn, of p f t f' t' _ f t'] ..
      then show ?thesis using del snoc assms nn by simp
    qed
  qed
qed

lemma foldl_compact_replay:
  "\<forall>x \<in> set out. nonneg_length x \<Longrightarrow> \<forall>x \<in> set xs. nonneg_length x \<Longrightarrow>
     replay (foldl compact_step out xs) s = replay (out @ xs) s"
proof (induction xs arbitrary: out)
  case Nil
  then show ?case by simp
next
  case (Cons a xs)
  have st: "replay (compact_step out a) s = replay (out @ [a]) s"
    and nn: "\<forall>x \<in> set (compact_step out a). nonneg_length x"
    using compact_step_replay[of out a s] Cons.prems by auto
  have "replay (foldl compact_step (compact_step out a) xs) s = replay (compact_step out a @ xs) s"
    using Cons.IH[OF nn] Cons.prems by simp
  also have "\<dots> = replay ((out @ [a]) @ xs) s"
    unfolding replay_append[of "compact_step out a"] replay_append[of "out @ [a]"] st ..
  finally show ?case by simp
qed

subsection \<open>What one call does to the state\<close>

lemma action_fail: "action h a = (h', Inl e) \<Longrightarrow> h' = h"
  by (auto simp: action_def Let_def split: if_splits sum.splits)

lemma action_ok:
  "action h a = (h', Inr v) \<Longrightarrow>
     version h = from_version a \<and> apply_to a (text_str h) = Inr (text_str h')
     \<and> version h' = to_version a \<and> actions_list h' = actions_list h @ [a] \<and> v = to_version a"
  by (auto simp: action_def Let_def split: if_splits sum.splits)

lemma perform_cases:
  "\<exists>a. from_version a = version h \<and> to_version a = version h + 1
      \<and> perform h c = (case action h a of
                          (h1, Inl e) \<Rightarrow> (h1, Inl e)
                        | (h1, Inr u) \<Rightarrow> (h1, Inr (version h1)))"
proof (cases c)
  case (Insert x p)
  show ?thesis
    by (rule exI[of _ "InsertAction (case p of None \<Rightarrow> len (text_str h) | Some q \<Rightarrow> q) x
          (version h) (version h + 1)"]) (simp add: Insert insert_txt_def)
next
  case (Replace x p)
  show ?thesis
    by (rule exI[of _ "ReplaceAction (case p of None \<Rightarrow> len (text_str h) | Some q \<Rightarrow> q) x
          (version h) (version h + 1)"]) (simp add: Replace replace_txt_def)
next
  case (Delete p l)
  show ?thesis
    by (rule exI[of _ "DeleteAction p l (version h) (version h + 1)"])
       (simp add: Delete delete_txt_def)
qed

lemma perform_fail:
  assumes "perform h c = (h', Inl e)"
  shows "h' = h"
proof -
  obtain a where p: "perform h c = (case action h a of
                          (h1, Inl e) \<Rightarrow> (h1, Inl e)
                        | (h1, Inr u) \<Rightarrow> (h1, Inr (version h1)))"
    using perform_cases[of h c] by blast
  obtain h1 r where ar: "action h a = (h1, r)" by (cases "action h a")
  with p assms have "h1 = h'" and "r = Inl e" by (auto split: sum.splits)
  with ar show ?thesis using action_fail by blast
qed

lemma perform_ok:
  assumes "perform h c = (h', Inr v)"
  shows "\<exists>a. from_version a = version h \<and> to_version a = version h + 1
          \<and> apply_to a (text_str h) = Inr (text_str h')
          \<and> version h' = version h + 1 \<and> actions_list h' = actions_list h @ [a]
          \<and> v = version h + 1"
proof -
  obtain a where a: "from_version a = version h" "to_version a = version h + 1"
    and p: "perform h c = (case action h a of
                          (h1, Inl e) \<Rightarrow> (h1, Inl e)
                        | (h1, Inr u) \<Rightarrow> (h1, Inr (version h1)))"
    using perform_cases[of h c] by blast
  from p assms obtain u where "action h a = (h', Inr u)" and v: "v = version h'"
    by (auto split: prod.splits sum.splits)
  from action_ok[OF this(1)] a v show ?thesis by auto
qed

text \<open>
  What a run of calls leaves behind, from any starting state: the version has grown by
  the number of successful calls, the log has grown by as many entries, numbered from
  the starting version on, and replaying the new entries on the starting text gives
  the final text.
\<close>

lemma run_invariant:
  "run h cs = (h', n) \<Longrightarrow>
     version h' = version h + int n
     \<and> (\<exists>as. actions_list h' = actions_list h @ as \<and> length as = n
           \<and> (\<forall>i<n. from_version (as ! i) = version h + int i
                    \<and> to_version (as ! i) = version h + int i + 1)
           \<and> replay as (text_str h) = Inr (text_str h'))"
proof (induction cs arbitrary: h h' n)
  case Nil
  then show ?case by simp
next
  case (Cons c cs)
  obtain h1 r where pc: "perform h c = (h1, r)" by (cases "perform h c")
  show ?case
  proof (cases r)
    case (Inl e)
    with pc have "h1 = h" by (auto dest: perform_fail)
    with Cons.prems pc Inl have "run h cs = (h', n)" by simp
    from Cons.IH[OF this] show ?thesis .
  next
    case (Inr v)
    from perform_ok[OF pc[unfolded Inr]] obtain a where
      a: "from_version a = version h" "to_version a = version h + 1"
         "apply_to a (text_str h) = Inr (text_str h1)"
         "version h1 = version h + 1" "actions_list h1 = actions_list h @ [a]"
      by blast
    from Cons.prems pc Inr obtain m where r: "run h1 cs = (h', m)" and n: "n = Suc m"
      by (auto split: prod.splits)
    from Cons.IH[OF r] obtain as where
      as: "version h' = version h1 + int m" "actions_list h' = actions_list h1 @ as"
          "length as = m"
          "\<forall>i<m. from_version (as ! i) = version h1 + int i
                    \<and> to_version (as ! i) = version h1 + int i + 1"
          "replay as (text_str h1) = Inr (text_str h')"
      by blast
    have idx: "\<forall>i<n. from_version ((a # as) ! i) = version h + int i
                    \<and> to_version ((a # as) ! i) = version h + int i + 1"
    proof (intro allI impI)
      fix i assume "i < n"
      show "from_version ((a # as) ! i) = version h + int i
                    \<and> to_version ((a # as) ! i) = version h + int i + 1"
      proof (cases i)
        case 0
        then show ?thesis using a by simp
      next
        case (Suc j)
        with \<open>i < n\<close> n have "j < m" by simp
        with as(4) a(4) Suc show ?thesis by simp
      qed
    qed
    have "actions_list h' = actions_list h @ (a # as)" using as(2) a(5) by simp
    moreover have "length (a # as) = n" using as(3) n by simp
    moreover have "replay (a # as) (text_str h) = Inr (text_str h')" using a(3) as(5) by simp
    moreover have "version h' = version h + int n" using as(1) a(4) n by simp
    ultimately show ?thesis using idx by blast
  qed
qed

text \<open>A run used as the concrete input of several statements below.\<close>

lemma run_example:
  "run init [Insert ''abc'' (Some 0), Replace ''XY'' None, Delete 1 2, Delete 9 9]
     = (\<lparr>text_str = ''aXY'', version = 3,
         actions_list = [InsertAction 0 ''abc'' 0 1, ReplaceAction 3 ''XY'' 1 2,
                         DeleteAction 1 2 2 3]\<rparr>, 3)"
  by (simp add: init_def insert_txt_def replace_txt_def delete_txt_def action_def len_def
      slice_to_def slice_from_def slice_index_def)

subsection \<open>The claims\<close>

text \<open>
  C1. Replay determinism: whatever calls of \<^verbatim>\<open>insert\<close>, \<^verbatim>\<open>replace\<close> and \<^verbatim>\<open>delete\<close> are
  made on a freshly created history (the calls that raise leave nothing behind),
  replaying the log in order from the empty string succeeds and gives the current text.
\<close>

theorem replay_determinism:
  "replay (actions_list (fst (run init cs))) [] = Inr (text_str (fst (run init cs)))"
proof -
  obtain h n where r: "run init cs = (h, n)" by (cases "run init cs")
  from run_invariant[OF r] have "replay (actions_list h) [] = Inr (text_str h)"
    by (auto simp: init_def)
  then show ?thesis by (simp add: r)
qed

theorem replay_determinism_witness:
  "replay [InsertAction 0 ''abc'' 0 1, ReplaceAction 3 ''XY'' 1 2, DeleteAction 1 2 2 3] []
     = Inr ''aXY''"
  using replay_determinism
          [of "[Insert ''abc'' (Some 0), Replace ''XY'' None, Delete 1 2, Delete 9 9]"]
  unfolding run_example by simp

text \<open>
  C2. \<^verbatim>\<open>ReplaceAction.apply\<close>: the call fails, with the \<^verbatim>\<open>ValueError\<close> of the replace
  action, exactly when the position is negative or beyond the length of the text. For a
  position \<open>0 \<le> p \<le> length t\<close> the result is \<open>t[:p] + content\<close> when
  \<open>p + length content \<ge> length t\<close> (the tail is cut, also when the two are equal), and
  \<open>t[:p] + content + t[p + length content:]\<close> otherwise.
\<close>

theorem replace_apply_semantics:
  "(apply_to (ReplaceAction p c f v) t = Inl (ValueError ''incorrect pos in ReplaceAction'')
      \<longleftrightarrow> p < 0 \<or> p > int (length t))
   \<and> ((\<exists>e. apply_to (ReplaceAction p c f v) t = Inl e) \<longleftrightarrow> p < 0 \<or> p > int (length t))
   \<and> (0 \<le> p \<and> p \<le> int (length t) \<and> p + int (length c) \<ge> int (length t)
        \<longrightarrow> apply_to (ReplaceAction p c f v) t = Inr (take (nat p) t @ c))
   \<and> (0 \<le> p \<and> p \<le> int (length t) \<and> p + int (length c) < int (length t)
        \<longrightarrow> apply_to (ReplaceAction p c f v) t
            = Inr (take (nat p) t @ c @ drop (nat p + length c) t))"
  by (auto simp: len_def slice_to_def slice_from_def slice_index_def Let_def nat_add_distrib)

theorem replace_apply_semantics_witness:
  "apply_to (ReplaceAction 4 ''XY'' 0 1) ''hello'' = Inr ''hellXY''
   \<and> apply_to (ReplaceAction 2 ''Z'' 0 1) ''hello'' = Inr ''heZlo''
   \<and> apply_to (ReplaceAction 3 ''XY'' 0 1) ''hello'' = Inr ''helXY''
   \<and> apply_to (ReplaceAction 6 ''Z'' 0 1) ''hello''
       = Inl (ValueError ''incorrect pos in ReplaceAction'')
   \<and> apply_to (ReplaceAction (- 1) ''Z'' 0 1) ''hello''
       = Inl (ValueError ''incorrect pos in ReplaceAction'')"
  using replace_apply_semantics [of 4 "''XY''" 0 1 "''hello''"]
        replace_apply_semantics [of 2 "''Z''" 0 1 "''hello''"]
        replace_apply_semantics [of 3 "''XY''" 0 1 "''hello''"]
        replace_apply_semantics [of 6 "''Z''" 0 1 "''hello''"]
        replace_apply_semantics [of "- 1" "''Z''" 0 1 "''hello''"]
  by (simp del: apply_to.simps)

text \<open>
  C3. \<^verbatim>\<open>TextHistory.action\<close> is all or nothing. It fails with the \<^verbatim>\<open>ValueError\<close> of a
  version mismatch when the action's \<^verbatim>\<open>from_version\<close> is not the current version; it
  passes on unchanged whatever error the action's \<^verbatim>\<open>apply\<close> raises; whenever it fails,
  the text, the version and the log are what they were. When it succeeds the text is
  the result of \<^verbatim>\<open>apply\<close>, the version is the action's \<^verbatim>\<open>to_version\<close>, and the action
  is the new last entry of the log.
\<close>

theorem action_atomic:
  "(version h \<noteq> from_version a \<longrightarrow>
      action h a = (h, Inl (ValueError ''incopatible versions.'')))
   \<and> (version h = from_version a \<and> apply_to a (text_str h) = Inl e \<longrightarrow>
      action h a = (h, Inl e))
   \<and> (snd (action h a) = Inl e' \<longrightarrow> fst (action h a) = h)
   \<and> (version h = from_version a \<and> apply_to a (text_str h) = Inr t' \<longrightarrow>
      action h a = (h\<lparr>text_str := t', version := to_version a,
                       actions_list := actions_list h @ [a]\<rparr>, Inr (to_version a)))"
  by (auto simp: action_def Let_def split: sum.splits)

theorem action_atomic_witness:
  "action init (InsertAction 0 ''a'' 1 2) = (init, Inl (ValueError ''incopatible versions.''))
   \<and> action init (InsertAction 5 ''a'' 0 1)
       = (init, Inl (ValueError ''incorrect pos in InsertAction.''))
   \<and> action init (InsertAction 0 ''a'' 0 1)
       = (\<lparr>text_str = ''a'', version = 1, actions_list = [InsertAction 0 ''a'' 0 1]\<rparr>, Inr 1)"
  using action_atomic [of init "InsertAction 0 ''a'' 1 2"]
        action_atomic [of init "InsertAction 5 ''a'' 0 1"
                          "ValueError ''incorrect pos in InsertAction.''"]
        action_atomic [of init "InsertAction 0 ''a'' 0 1" _ _ "''a''"]
  by (simp add: init_def len_def slice_to_def slice_from_def slice_index_def)

text \<open>
  C4. Merging inserts: when the last action of the output list is an insert and the
  candidate is an insert whose position is the last one's position plus the length of
  its content, \<^verbatim>\<open>try_merge_insert\<close>, and with it the body and the loop of \<^verbatim>\<open>optimize\<close>,
  replace the last action by one insert with the last one's position and
  \<^verbatim>\<open>from_version\<close>, the two contents joined, and the candidate's \<^verbatim>\<open>to_version\<close>. After
  \<^verbatim>\<open>insert("a", 0)\<close>, \<^verbatim>\<open>insert("b", 1)\<close>, \<^verbatim>\<open>insert("c", 2)\<close> on a new history,
  \<^verbatim>\<open>get_actions()\<close> returns the single insert of \<^verbatim>\<open>"abc"\<close> at 0 from version 0 to 3.
\<close>

theorem insert_merge_compaction:
  "(q = p + int (length c) \<longrightarrow>
      try_merge_insert (InsertAction q c' f' t') (out @ [InsertAction p c f t])
        = Inr (out @ [InsertAction p (c @ c') f t'])
      \<and> optimize_body (out @ [InsertAction p c f t]) (InsertAction q c' f' t')
        = Inr (out @ [InsertAction p (c @ c') f t'])
      \<and> optimize_loop (out @ [InsertAction p c f t]) (InsertAction q c' f' t' # rest)
        = optimize_loop (out @ [InsertAction p (c @ c') f t']) rest)
   \<and> snd (get_actions (fst (run init [Insert ''a'' (Some 0), Insert ''b'' (Some 1),
                                      Insert ''c'' (Some 2)])) None None)
       = Inr [InsertAction 0 ''abc'' 0 3]"
  by (simp add: optimize_body_def try_merge_insert_def len_def
      optimize_eq compaction_def compact_step_def get_actions_def init_def
      insert_txt_def action_def slice_to_def slice_from_def slice_index_def)

theorem insert_merge_compaction_witness:
  "(1::int) = 0 + int (length ''a'')
   \<and> try_merge_insert (InsertAction 1 ''b'' 1 2) [InsertAction 0 ''a'' 0 1]
       = Inr [InsertAction 0 ''ab'' 0 2]
   \<and> optimize_body [InsertAction 0 ''a'' 0 1] (InsertAction 1 ''b'' 1 2)
       = Inr [InsertAction 0 ''ab'' 0 2]"
  using insert_merge_compaction [of 1 0 "''a''" "''b''" 1 2 "[]" 0 1]
  by simp

text \<open>
  C5, as amended. For every list of actions whose delete lengths are not negative and
  every text, \<^verbatim>\<open>optimize\<close> returns a list, and replaying that list on the text gives
  the same result as replaying the original list: the same final text, or the same
  failure.
\<close>

theorem compaction_equivalence:
  assumes "\<forall>a \<in> set act_list. nonneg_length a"
  shows "\<exists>ys. optimize act_list = Inr ys \<and> replay ys s = replay act_list s"
  using foldl_compact_replay[of "[]" act_list s] assms
  by (simp add: optimize_eq compaction_def)

theorem compaction_equivalence_witness:
  "nonneg_length (InsertAction 0 ''a'' 0 1) \<and> nonneg_length (InsertAction 1 ''b'' 1 2)
   \<and> nonneg_length (DeleteAction 0 1 2 3) \<and> nonneg_length (DeleteAction 0 1 3 4)
   \<and> (\<exists>ys. optimize [InsertAction 0 ''a'' 0 1, InsertAction 1 ''b'' 1 2,
                        DeleteAction 0 1 2 3, DeleteAction 0 1 3 4] = Inr ys
        \<and> replay ys [] = replay [InsertAction 0 ''a'' 0 1, InsertAction 1 ''b'' 1 2,
                                  DeleteAction 0 1 2 3, DeleteAction 0 1 3 4] [])"
proof -
  have h: "\<forall>a \<in> set [InsertAction 0 ''a'' 0 1, InsertAction 1 ''b'' 1 2,
                  DeleteAction 0 1 2 3, DeleteAction 0 1 3 4]. nonneg_length a"
    by simp
  show ?thesis
    using compaction_equivalence [OF h, of "[]"] by (simp del: replay.simps)
qed

text \<open>
  C5 as stated fails on a delete of negative length, which \<^verbatim>\<open>delete\<close> accepts: after
  \<^verbatim>\<open>insert("hello")\<close>, \<^verbatim>\<open>delete(0, 5)\<close> and \<^verbatim>\<open>delete(0, -5)\<close>, the query
  \<^verbatim>\<open>get_actions(1, 3)\<close> merges the two deletes into one of length 0, which leaves
  \<^verbatim>\<open>"hello"\<close> as it is, while the two deletes themselves empty it.
\<close>

theorem compaction_equivalence_counterexample:
  "snd (get_actions (fst (run init [Insert ''hello'' None, Delete 0 5, Delete 0 (- 5)]))
         (Some 1) (Some 3)) = Inr [DeleteAction 0 0 1 3]
   \<and> optimize [DeleteAction 0 5 1 2, DeleteAction 0 (- 5) 2 3] = Inr [DeleteAction 0 0 1 3]
   \<and> replay [DeleteAction 0 5 1 2, DeleteAction 0 (- 5) 2 3] ''hello'' = Inr []
   \<and> replay [DeleteAction 0 0 1 3] ''hello'' = Inr ''hello''"
  by (simp add: optimize_eq compaction_def compact_step_def get_actions_def init_def
      insert_txt_def delete_txt_def action_def len_def slice_to_def slice_from_def
      slice_index_def)

text \<open>
  C6. \<^verbatim>\<open>get_actions\<close> on valid bounds (a bound left out is 0, respectively the current
  version): the result is what \<^verbatim>\<open>optimize\<close> makes of the logged actions whose
  \<^verbatim>\<open>from_version\<close> is at least the lower bound and less than the upper bound, in the
  order of the log; that is the compaction pass of the specification on this sublist.
  The history, and so its log, is returned as it was received.
\<close>

theorem get_actions_selection:
  "(case from_arg of None \<Rightarrow> 0 | Some v \<Rightarrow> v) = fv \<and>
   (case to_arg of None \<Rightarrow> version h | Some v \<Rightarrow> v) = tv \<and>
   0 \<le> fv \<and> fv \<le> tv \<and> tv \<le> version h \<longrightarrow>
     get_actions h from_arg to_arg
       = (h, optimize (filter (\<lambda>a. fv \<le> from_version a \<and> from_version a < tv)
                         (actions_list h)))
     \<and> optimize (filter (\<lambda>a. fv \<le> from_version a \<and> from_version a < tv) (actions_list h))
       = Inr (compaction (filter (\<lambda>a. fv \<le> from_version a \<and> from_version a < tv)
                            (actions_list h)))"
  by (auto simp: get_actions_def optimize_eq)

theorem get_actions_selection_witness:
  "get_actions \<lparr>text_str = ''abc'', version = 3,
       actions_list = [InsertAction 0 ''a'' 0 1, InsertAction 1 ''b'' 1 2,
                       InsertAction 2 ''c'' 2 3]\<rparr> (Some 1) (Some 3)
     = (\<lparr>text_str = ''abc'', version = 3,
         actions_list = [InsertAction 0 ''a'' 0 1, InsertAction 1 ''b'' 1 2,
                         InsertAction 2 ''c'' 2 3]\<rparr>, Inr [InsertAction 1 ''bc'' 1 3])
   \<and> get_actions \<lparr>text_str = ''abc'', version = 3,
       actions_list = [InsertAction 0 ''a'' 0 1, InsertAction 1 ''b'' 1 2,
                       InsertAction 2 ''c'' 2 3]\<rparr> (Some 1) (Some 2)
     = (\<lparr>text_str = ''abc'', version = 3,
         actions_list = [InsertAction 0 ''a'' 0 1, InsertAction 1 ''b'' 1 2,
                         InsertAction 2 ''c'' 2 3]\<rparr>, Inr [InsertAction 1 ''b'' 1 2])"
  using get_actions_selection [where from_arg = "Some 1" and fv = 1 and to_arg = "Some 3"
          and tv = 3 and h = "\<lparr>text_str = ''abc'', version = 3,
       actions_list = [InsertAction 0 ''a'' 0 1, InsertAction 1 ''b'' 1 2,
                       InsertAction 2 ''c'' 2 3]\<rparr>"]
        get_actions_selection [where from_arg = "Some 1" and fv = 1 and to_arg = "Some 2"
          and tv = 2 and h = "\<lparr>text_str = ''abc'', version = 3,
       actions_list = [InsertAction 0 ''a'' 0 1, InsertAction 1 ''b'' 1 2,
                       InsertAction 2 ''c'' 2 3]\<rparr>"]
  by (simp add: compaction_def compact_step_def)

text \<open>
  C7. \<^verbatim>\<open>get_actions\<close> with both bounds given fails, with the \<^verbatim>\<open>ValueError\<close> of the
  version check, if and only if a bound is negative, the lower bound is greater than
  the upper one, or a bound is greater than the current version. So
  \<^verbatim>\<open>get_actions(5, 2)\<close> fails on every history, and so does an upper bound \<open>k > 0\<close>
  above the current version with the lower bound left out.
\<close>

theorem get_actions_range_validation:
  "(snd (get_actions h (Some fv) (Some tv)) = Inl (ValueError ''incopatible versions.'')
      \<longleftrightarrow> fv < 0 \<or> tv < 0 \<or> fv > tv \<or> fv > version h \<or> tv > version h)
   \<and> ((\<exists>e. snd (get_actions h (Some fv) (Some tv)) = Inl e)
      \<longleftrightarrow> fv < 0 \<or> tv < 0 \<or> fv > tv \<or> fv > version h \<or> tv > version h)
   \<and> snd (get_actions h (Some 5) (Some 2)) = Inl (ValueError ''incopatible versions.'')
   \<and> (0 < k \<longrightarrow> snd (get_actions h None (Some (version h + k)))
                   = Inl (ValueError ''incopatible versions.''))"
  by (auto simp: get_actions_def optimize_eq)

theorem get_actions_range_validation_witness:
  "snd (get_actions init (Some 0) (Some 0)) = Inr []
   \<and> snd (get_actions init (Some 0) (Some 1)) = Inl (ValueError ''incopatible versions.'')
   \<and> snd (get_actions init (Some (- 1)) (Some 0)) = Inl (ValueError ''incopatible versions.'')
   \<and> snd (get_actions init None (Some (version init + 1000)))
       = Inl (ValueError ''incopatible versions.'')"
proof -
  have a: "\<not> (\<exists>e. snd (get_actions init (Some 0) (Some 0)) = Inl e)"
    using get_actions_range_validation [of init 0 0 1] by (simp add: init_def)
  have b: "snd (get_actions init (Some 0) (Some 0)) = Inr []"
    using a by (simp add: get_actions_def init_def optimize_def)
  show ?thesis
    using b get_actions_range_validation [of init 0 1 1000]
          get_actions_range_validation [of init "- 1" 0 1000]
    by (simp add: init_def)
qed

text \<open>
  C8. After calls of \<^verbatim>\<open>insert\<close>, \<^verbatim>\<open>replace\<close> and \<^verbatim>\<open>delete\<close> on a freshly created history
  of which \<open>n\<close> succeeded, the version is \<open>n\<close>, the log has as many entries as the version
  says, and the entry at index \<open>i\<close> goes from version \<open>i\<close> to version \<open>i + 1\<close>.
\<close>

theorem log_version_invariant:
  assumes "run init cs = (h, n)"
  shows "version h = int n \<and> int (length (actions_list h)) = version h
         \<and> (\<forall>i < length (actions_list h).
               from_version (actions_list h ! i) = int i
               \<and> to_version (actions_list h ! i) = int i + 1)"
  using run_invariant[OF assms] by (auto simp: init_def)

theorem log_version_invariant_witness:
  "run init [Insert ''abc'' (Some 0), Replace ''XY'' None, Delete 1 2, Delete 9 9]
     = (\<lparr>text_str = ''aXY'', version = 3,
         actions_list = [InsertAction 0 ''abc'' 0 1, ReplaceAction 3 ''XY'' 1 2,
                         DeleteAction 1 2 2 3]\<rparr>, 3)
   \<and> version \<lparr>text_str = ''aXY'', version = 3,
         actions_list = [InsertAction 0 ''abc'' 0 1, ReplaceAction 3 ''XY'' 1 2,
                         DeleteAction 1 2 2 3]\<rparr> = int 3
   \<and> from_version ([InsertAction 0 ''abc'' 0 1, ReplaceAction 3 ''XY'' 1 2,
                      DeleteAction 1 2 2 3] ! 2) = 2
   \<and> to_version ([InsertAction 0 ''abc'' 0 1, ReplaceAction 3 ''XY'' 1 2,
                    DeleteAction 1 2 2 3] ! 2) = 3"
  using log_version_invariant [OF run_example] run_example by simp

text \<open>
  C9, as amended. An insert renders as \<^verbatim>\<open>insert(<content>, pos=<position>,\<close>, one or more
  blanks, \<^verbatim>\<open>ver1=<from_version>, ver2=<to_version>)\<close>; a replace renders the same way
  after \<^verbatim>\<open>replace(\<close>; a delete renders as \<^verbatim>\<open>delete(pos=<position>, length=<length>,\<close>,
  the blanks, and the two versions: the position comes first and the length is
  labelled. The numbers are in decimal.
\<close>

theorem str_action_rendering:
  "\<exists>n. 0 < n
     \<and> str_action (InsertAction p c f t)
         = ''insert('' @ c @ '', pos='' @ str_int p @ '','' @ replicate n (CHR '' '')
           @ ''ver1='' @ str_int f @ '', ver2='' @ str_int t @ '')''
     \<and> str_action (ReplaceAction p c f t)
         = ''replace('' @ c @ '', pos='' @ str_int p @ '','' @ replicate n (CHR '' '')
           @ ''ver1='' @ str_int f @ '', ver2='' @ str_int t @ '')''
     \<and> str_action (DeleteAction p l f t)
         = ''delete(pos='' @ str_int p @ '', length='' @ str_int l @ '','' @ replicate n (CHR '' '')
           @ ''ver1='' @ str_int f @ '', ver2='' @ str_int t @ '')''"
  by (rule exI[of _ 17]) (simp add: numeral_eq_Suc)

theorem str_action_rendering_witness:
  "\<exists>n. 0 < n
     \<and> str_action (InsertAction 12 ''abc'' 3 4)
         = ''insert(abc, pos=12,'' @ replicate n (CHR '' '') @ ''ver1=3, ver2=4)''
     \<and> str_action (DeleteAction 12 (- 5) 3 4)
         = ''delete(pos=12, length=-5,'' @ replicate n (CHR '' '') @ ''ver1=3, ver2=4)''"
proof -
  from str_action_rendering [of 12 "''abc''" 3 4 "- 5"] obtain n where n: "0 < n"
    and i: "str_action (InsertAction 12 ''abc'' 3 4)
         = ''insert('' @ ''abc'' @ '', pos='' @ str_int 12 @ '','' @ replicate n (CHR '' '')
           @ ''ver1='' @ str_int 3 @ '', ver2='' @ str_int 4 @ '')''"
    and d: "str_action (DeleteAction 12 (- 5) 3 4)
         = ''delete(pos='' @ str_int 12 @ '', length='' @ str_int (- 5) @ '',''
           @ replicate n (CHR '' '') @ ''ver1='' @ str_int 3 @ '', ver2='' @ str_int 4 @ '')''"
    by blast
  have v: "str_int 12 = ''12''" "str_int 3 = ''3''" "str_int 4 = ''4''" "str_int (- 5) = ''-5''"
    by (simp_all add: str_int_def str_nat.simps)
  show ?thesis
    using n i d unfolding v by (intro exI[of _ n]) simp
qed

text \<open>
  C9 as stated fails: the text between \<^verbatim>\<open>pos=...,\<close> and \<^verbatim>\<open>ver1=\<close> is 17 blanks, not
  one, and a delete renders its position before its length.
\<close>

theorem str_action_rendering_counterexample:
  "str_action (InsertAction 0 ''abc'' 0 1) = ''insert(abc, pos=0,                 ver1=0, ver2=1)''
   \<and> str_action (InsertAction 0 ''abc'' 0 1) \<noteq> ''insert(abc, pos=0, ver1=0, ver2=1)''
   \<and> str_action (DeleteAction 7 3 0 1) = ''delete(pos=7, length=3,                 ver1=0, ver2=1)''
   \<and> str_action (DeleteAction 7 3 0 1) \<noteq> ''delete(3, pos=7, ver1=0, ver2=1)''"
  by (simp add: str_int_def str_nat.simps)

text \<open>
  C10. \<^verbatim>\<open>TextHistory.action\<close> never looks at the action's \<^verbatim>\<open>to_version\<close>: when the
  action's \<^verbatim>\<open>from_version\<close> is the current version and its \<^verbatim>\<open>apply\<close> succeeds, the call
  succeeds and the version becomes the action's \<^verbatim>\<open>to_version\<close>, whatever it is. An
  action from 0 to 5 makes the version jump to 5, one from 5 to 2 then makes it go
  down to 2, and after the first of them the entry that \<^verbatim>\<open>insert\<close> logs at index 1 starts
  at version 5.
\<close>

theorem action_to_version_unchecked:
  "(version h = from_version a \<and> apply_to a (text_str h) = Inr t' \<longrightarrow>
      snd (action h a) = Inr (to_version a) \<and> version (fst (action h a)) = to_version a)
   \<and> version (fst (action init (InsertAction 0 ''ab'' 0 5))) = 5
   \<and> version (fst (action (fst (action init (InsertAction 0 ''ab'' 0 5)))
                      (DeleteAction 0 1 5 2))) = 2
   \<and> actions_list (fst (insert_txt (fst (action init (InsertAction 0 ''ab'' 0 5))) ''c'' None))
       = [InsertAction 0 ''ab'' 0 5, InsertAction 2 ''c'' 5 6]"
  by (auto simp: action_def Let_def init_def insert_txt_def len_def slice_to_def slice_from_def
      slice_index_def split: sum.splits)

theorem action_to_version_unchecked_witness:
  "version init = from_version (DeleteAction 0 0 0 (- 7))
   \<and> apply_to (DeleteAction 0 0 0 (- 7)) (text_str init) = Inr []
   \<and> snd (action init (DeleteAction 0 0 0 (- 7))) = Inr (- 7)
   \<and> version (fst (action init (DeleteAction 0 0 0 (- 7)))) = - 7"
  using action_to_version_unchecked [of init "DeleteAction 0 0 0 (- 7)" "[]"]
  by (simp add: init_def len_def slice_to_def slice_from_def slice_index_def)

end
